theory Spec2Isabelle
  imports Complex_Main
begin

section \<open>Values, failures and results\<close>

text \<open>
  Python values as far as \<open>aiohttp/web_jobs.py\<close> looks at them: it compares a value with
  \<open>None\<close> and asks whether it is callable, nothing more. A duration such as the default
  \<open>timeout=0.1\<close> is a number; the module never computes with it.
\<close>

datatype pyval = PyNone | PyNum rat | PyStr string | PyCallable nat | PyObject nat

fun callable :: "pyval \<Rightarrow> bool" where
  "callable (PyCallable _) = True"
| "callable _ = False"

text \<open>
  The exceptions that can travel through the module. \<open>Failure n\<close> stands for any other
  exception a computation raises. \<open>NoSuchObject\<close> is not a Python exception: it is the
  result of following an address that the store does not hold, which no Python reference
  can do.
\<close>

datatype exn =
    TimeoutError | CancelledError | TypeError pyval | AttributeError | KeyError
  | InvalidStateError | Failure nat | NoSuchObject

text \<open>
  A call returns a value, raises, or (a coroutine only) stays suspended for ever.
\<close>

datatype 'a result = Returns 'a | Raises exn | Suspended

section \<open>The scheduler's task, as the module uses it\<close>

text \<open>
  \<open>asyncio.Task\<close> is not part of the module; this is its documented interface.
  A task is pending or has reached one of three terminal states. \<open>Task.exception()\<close>
  returns the exception (or \<open>None\<close>) of a finished task, raises \<open>CancelledError\<close> for a
  cancelled one and \<open>InvalidStateError\<close> for a pending one. Awaiting a finished task gives
  its result, raises its exception, or raises \<open>CancelledError\<close>. A coroutine that raises
  \<open>CancelledError\<close> leaves its task cancelled.
\<close>

datatype outcome = Returned pyval | Raised exn | WasCancelled

datatype tstate = Pending | Done outcome

fun settled :: "outcome \<Rightarrow> outcome" where
  "settled (Raised e) = (if e = CancelledError then WasCancelled else Raised e)"
| "settled out = out"

fun Task_done :: "tstate \<Rightarrow> bool" where
  "Task_done Pending = False"
| "Task_done (Done _) = True"

fun Task_exception :: "tstate \<Rightarrow> (exn option) result" where
  "Task_exception Pending = Raises InvalidStateError"
| "Task_exception (Done WasCancelled) = Raises CancelledError"
| "Task_exception (Done (Raised e)) = Returns (Some e)"
| "Task_exception (Done (Returned v)) = Returns None"

fun Task_result :: "outcome \<Rightarrow> pyval result" where
  "Task_result (Returned v) = Returns v"
| "Task_result (Raised e) = Raises e"
| "Task_result WasCancelled = Raises CancelledError"

text \<open>
  What the computation does while a caller is suspended on it: it ends in a terminal
  state, or it outlives the caller's deadline (for ever, when there is no deadline).
\<close>

datatype fate = Ends outcome | Outlives

section \<open>The store: jobs, runners, the loop\<close>

type_synonym traceback = "string list"

text \<open>
  The dictionary handed to an exception handler. The key \<open>source_traceback\<close> is present
  only when the job has a traceback.
\<close>

record ctx =
  message :: string
  ctx_job :: nat
  exception :: exn
  ctx_source_traceback :: "traceback option"

text \<open>
  \<open>Job.__slots__\<close>. The task belongs to the job alone, so its state and its pending
  cancellation request are kept in the job; \<open>manager\<close> is the address of the runner or
  \<open>None\<close>; \<open>_loop\<close> is the one loop of the store.
\<close>

record job =
  task :: tstate
  cancel_requested :: bool
  manager :: "nat option"
  explicit_wait :: bool
  source_traceback :: "traceback option"

record runner =
  jobs :: "nat set"
  timeout :: pyval
  exception_handler :: pyval

text \<open>
  Where a reported context went: the runner's handler or the loop's own. The store
  keeps, in \<open>reported\<close>, every context passed to \<open>JobRunner.call_exception_handler\<close>, in
  order.
\<close>

datatype sink = Handler pyval | LoopDefault

record world =
  job_store :: "nat \<rightharpoonup> job"
  runner_store :: "nat \<rightharpoonup> runner"
  next_job :: nat
  next_runner :: nat
  loop_debug :: bool
  reported :: "(sink \<times> ctx) list"

definition init_world :: world where
  "init_world = \<lparr>job_store = Map.empty, runner_store = Map.empty, next_job = 0,
     next_runner = 0, loop_debug = False, reported = []\<rparr>"

definition put_job :: "nat \<Rightarrow> job \<Rightarrow> world \<Rightarrow> world" where
  "put_job j J w = w\<lparr>job_store := (job_store w)(j \<mapsto> J)\<rparr>"

definition put_runner :: "nat \<Rightarrow> runner \<Rightarrow> world \<Rightarrow> world" where
  "put_runner m R w = w\<lparr>runner_store := (runner_store w)(m \<mapsto> R)\<rparr>"

section \<open>JobRunner: handler and grace period\<close>

text \<open>
  \<open>JobRunner.call_exception_handler\<close>, with \<open>self\<close> already read from the store. A
  handler is taken to record the context and return.
\<close>

definition JobRunner_call_exception_handler :: "runner \<Rightarrow> ctx \<Rightarrow> world \<Rightarrow> world" where
  "JobRunner_call_exception_handler R c w =
     (let handler = exception_handler R in
      if handler = PyNone then w\<lparr>reported := reported w @ [(LoopDefault, c)]\<rparr>
      else w\<lparr>reported := reported w @ [(Handler handler, c)]\<rparr>)"

definition JobRunner_init :: "pyval \<Rightarrow> world \<Rightarrow> nat \<times> world" where
  "JobRunner_init tmo w =
     (let m = next_runner w in
      (m, (put_runner m \<lparr>jobs = {}, timeout = tmo, exception_handler = PyNone\<rparr> w)
            \<lparr>next_runner := Suc m\<rparr>))"

definition default_timeout :: pyval where
  "default_timeout = PyNum (1 / 10)"


definition JobRunner_set_timeout :: "nat \<Rightarrow> pyval \<Rightarrow> world \<Rightarrow> pyval result \<times> world" where
  "JobRunner_set_timeout m d w =
     (case runner_store w m of None \<Rightarrow> (Raises NoSuchObject, w)
      | Some R \<Rightarrow> (Returns PyNone, put_runner m (R\<lparr>timeout := d\<rparr>) w))"

definition JobRunner_get_exception_handler :: "nat \<Rightarrow> world \<Rightarrow> pyval result" where
  "JobRunner_get_exception_handler m w =
     (case runner_store w m of None \<Rightarrow> Raises NoSuchObject
      | Some R \<Rightarrow> Returns (exception_handler R))"

definition JobRunner_set_exception_handler ::
  "nat \<Rightarrow> pyval \<Rightarrow> world \<Rightarrow> pyval result \<times> world" where
  "JobRunner_set_exception_handler m handler w =
     (case runner_store w m of None \<Rightarrow> (Raises NoSuchObject, w)
      | Some R \<Rightarrow>
          if handler \<noteq> PyNone \<and> \<not> callable handler then (Raises (TypeError handler), w)
          else (Returns PyNone, put_runner m (R\<lparr>exception_handler := handler\<rparr>) w))"

definition JobRunner_contains :: "nat \<Rightarrow> nat \<Rightarrow> world \<Rightarrow> bool result" where
  "JobRunner_contains m j w =
     (case runner_store w m of None \<Rightarrow> Raises NoSuchObject | Some R \<Rightarrow> Returns (j \<in> jobs R))"

definition JobRunner_len :: "nat \<Rightarrow> world \<Rightarrow> nat result" where
  "JobRunner_len m w =
     (case runner_store w m of None \<Rightarrow> Raises NoSuchObject | Some R \<Rightarrow> Returns (card (jobs R)))"

text \<open>
  Iterating a Python set gives its members in an order the module does not depend on;
  the model lists them by address.
\<close>

definition JobRunner_iter :: "nat \<Rightarrow> world \<Rightarrow> (nat list) result" where
  "JobRunner_iter m w =
     (case runner_store w m of None \<Rightarrow> Raises NoSuchObject
      | Some R \<Rightarrow> Returns (sorted_list_of_set (jobs R)))"

section \<open>Job\<close>

text \<open>
  \<open>Job.__init__\<close>: the coroutine becomes a pending task, the traceback is taken only in
  debug mode (\<open>stack\<close> is what \<open>traceback.extract_stack\<close> returns there), the done
  callback is armed and the job joins the manager's set.
\<close>

definition Job_init :: "traceback \<Rightarrow> nat \<Rightarrow> world \<Rightarrow> nat result \<times> world" where
  "Job_init stack m w =
     (case runner_store w m of None \<Rightarrow> (Raises NoSuchObject, w)
      | Some R \<Rightarrow>
          let j = next_job w;
              J = \<lparr>task = Pending, cancel_requested = False, manager = Some m,
                   explicit_wait = False,
                   source_traceback = (if loop_debug w then Some stack else None)\<rparr>
          in (Returns j,
              (put_runner m (R\<lparr>jobs := insert j (jobs R)\<rparr>) (put_job j J w))
                \<lparr>next_job := Suc j\<rparr>))"

definition JobRunner_exec :: "nat \<Rightarrow> traceback \<Rightarrow> world \<Rightarrow> nat result \<times> world" where
  "JobRunner_exec m stack w = Job_init stack m w"

definition failed_context :: "nat \<Rightarrow> job \<Rightarrow> exn \<Rightarrow> ctx" where
  "failed_context j J exc =
     \<lparr>message = ''Job processing failed'', ctx_job = j, exception = exc,
      ctx_source_traceback = source_traceback J\<rparr>"

definition closing_context :: "nat \<Rightarrow> job \<Rightarrow> exn \<Rightarrow> ctx" where
  "closing_context j J exc =
     \<lparr>message = ''Job closing reached timeout'', ctx_job = j, exception = exc,
      ctx_source_traceback = source_traceback J\<rparr>"

text \<open>
  \<open>Job._done_callback\<close>, line by line: \<open>set.remove\<close> raises \<open>KeyError\<close> for a missing
  member, \<open>task.exception()\<close> raises for a cancelled task, and the back reference is
  dropped on the last line only.
\<close>

definition Job_done_callback :: "nat \<Rightarrow> world \<Rightarrow> pyval result \<times> world" where
  "Job_done_callback j w =
     (case job_store w j of None \<Rightarrow> (Raises NoSuchObject, w)
      | Some J \<Rightarrow>
         (case manager J of None \<Rightarrow> (Raises AttributeError, w)
          | Some m \<Rightarrow>
             (case runner_store w m of None \<Rightarrow> (Raises NoSuchObject, w)
              | Some R \<Rightarrow>
                 if j \<notin> jobs R then (Raises KeyError, w)
                 else
                   let w1 = put_runner m (R\<lparr>jobs := jobs R - {j}\<rparr>) w in
                   (case Task_exception (task J) of
                      Raises e \<Rightarrow> (Raises e, w1)
                    | Suspended \<Rightarrow> (Suspended, w1)
                    | Returns exc \<Rightarrow>
                        let w2 = (case exc of None \<Rightarrow> w1
                                  | Some e \<Rightarrow>
                                      if \<not> explicit_wait J
                                      then JobRunner_call_exception_handler
                                             (R\<lparr>jobs := jobs R - {j}\<rparr>) (failed_context j J e) w1
                                      else w1)
                        in (Returns PyNone, put_job j (J\<lparr>manager := None\<rparr>) w2)))))"

text \<open>
  The scheduler's step for one task: a pending task reaches a terminal state and its
  done callbacks run, once. What a callback raises stays with the loop, which logs it
  on its own; that log is not a report of the module and is not kept in \<open>reported\<close>.
  The job's callback was added in \<open>__init__\<close>, before any waiter, so it runs before a
  suspended caller resumes.
\<close>

definition Task_finish :: "nat \<Rightarrow> outcome \<Rightarrow> world \<Rightarrow> world" where
  "Task_finish j out w =
     (case job_store w j of None \<Rightarrow> w
      | Some J \<Rightarrow>
         (case task J of Done _ \<Rightarrow> w
          | Pending \<Rightarrow> snd (Job_done_callback j (put_job j (J\<lparr>task := Done (settled out)\<rparr>) w))))"

text \<open>\<open>Task.cancel()\<close>: a request on a pending task, nothing on a finished one.\<close>

definition Task_cancel :: "nat \<Rightarrow> world \<Rightarrow> world" where
  "Task_cancel j w =
     (case job_store w j of None \<Rightarrow> w
      | Some J \<Rightarrow>
         (case task J of Done _ \<Rightarrow> w
          | Pending \<Rightarrow> put_job j (J\<lparr>cancel_requested := True\<rparr>) w))"

text \<open>
  \<open>with async_timeout.timeout(tmo): yield from self._task\<close>. Entering the block with a
  timeout other than \<open>None\<close> calls \<open>loop.call_later(tmo, ...)\<close>, which adds the delay
  to the clock: a delay that is not a number raises \<open>TypeError\<close> there, before the task
  is looked at. Then a finished task answers at once. A pending one either ends while
  the caller is suspended, or outlives the deadline: the caller gets \<open>TimeoutError\<close>, or
  never resumes when \<open>tmo\<close> is \<open>None\<close>.
\<close>

fun is_duration :: "pyval \<Rightarrow> bool" where
  "is_duration PyNone = True"
| "is_duration (PyNum _) = True"
| "is_duration _ = False"

definition await_task :: "nat \<Rightarrow> pyval \<Rightarrow> fate \<Rightarrow> world \<Rightarrow> pyval result \<times> world" where
  "await_task j tmo f w =
     (if \<not> is_duration tmo then (Raises (TypeError tmo), w)
      else
        (case job_store w j of None \<Rightarrow> (Raises NoSuchObject, w)
         | Some J \<Rightarrow>
            (case task J of Done out \<Rightarrow> (Task_result out, w)
             | Pending \<Rightarrow>
                (case f of Ends out \<Rightarrow> (Task_result (settled out), Task_finish j out w)
                 | Outlives \<Rightarrow>
                     if tmo = PyNone then (Suspended, w) else (Raises TimeoutError, w)))))"

definition Job_done :: "nat \<Rightarrow> world \<Rightarrow> bool result" where
  "Job_done j w =
     (case job_store w j of None \<Rightarrow> Raises NoSuchObject | Some J \<Rightarrow> Returns (Task_done (task J)))"

text \<open>
  The two \<open>except\<close> clauses of \<open>Job.close\<close>, applied to what the bounded wait gave. The
  timeout clause reads \<open>self._source_traceback\<close> and \<open>self._manager\<close> after the wait.
\<close>

definition Job_close_handlers :: "nat \<Rightarrow> pyval result \<times> world \<Rightarrow> pyval result \<times> world" where
  "Job_close_handlers j rw =
     (case rw of (r, w1) \<Rightarrow>
        (case r of Returns v \<Rightarrow> (Returns PyNone, w1)
         | Suspended \<Rightarrow> (Suspended, w1)
         | Raises e \<Rightarrow>
             if e = CancelledError then (Returns PyNone, w1)
             else if e = TimeoutError then
               (case job_store w1 j of None \<Rightarrow> (Raises NoSuchObject, w1)
                | Some J1 \<Rightarrow>
                   (case manager J1 of None \<Rightarrow> (Raises AttributeError, w1)
                    | Some m1 \<Rightarrow>
                       (case runner_store w1 m1 of None \<Rightarrow> (Raises NoSuchObject, w1)
                        | Some R1 \<Rightarrow>
                            (Returns PyNone,
                             JobRunner_call_exception_handler R1 (closing_context j J1 e) w1))))
             else (Raises e, w1)))"

text \<open>
  \<open>Job.close\<close>: cancel, read the manager's timeout (an \<open>AttributeError\<close> when the back
  reference is \<open>None\<close>), wait under it, handle.
\<close>

definition Job_close :: "nat \<Rightarrow> fate \<Rightarrow> world \<Rightarrow> pyval result \<times> world" where
  "Job_close j f w =
     (case job_store w j of None \<Rightarrow> (Raises NoSuchObject, w)
      | Some J \<Rightarrow>
         let w0 = Task_cancel j w in
         (case manager J of None \<Rightarrow> (Raises AttributeError, w0)
          | Some m \<Rightarrow>
             (case runner_store w0 m of None \<Rightarrow> (Raises NoSuchObject, w0)
              | Some R \<Rightarrow> Job_close_handlers j (await_task j (timeout R) f w0))))"

text \<open>
  \<open>Job._wait\<close>: \<open>f1\<close> is the computation's fate during the wait, \<open>f2\<close> its fate during
  the \<open>close()\<close> of the \<open>except asyncio.TimeoutError\<close> clause.
\<close>

definition Job__wait :: "nat \<Rightarrow> pyval \<Rightarrow> fate \<Rightarrow> fate \<Rightarrow> world \<Rightarrow> pyval result \<times> world" where
  "Job__wait j tmo f1 f2 w =
     (case await_task j tmo f1 w of (r, w1) \<Rightarrow>
        if r = Raises TimeoutError then
          (case Job_close j f2 w1 of (rc, w2) \<Rightarrow>
             (case rc of Returns v \<Rightarrow> (Raises TimeoutError, w2)
              | Raises e \<Rightarrow> (Raises e, w2)
              | Suspended \<Rightarrow> (Suspended, w2)))
        else (r, w1))"

definition Job_wait :: "nat \<Rightarrow> pyval \<Rightarrow> fate \<Rightarrow> fate \<Rightarrow> world \<Rightarrow> pyval result \<times> world" where
  "Job_wait j tmo f1 f2 w =
     (case job_store w j of None \<Rightarrow> (Raises NoSuchObject, w)
      | Some J \<Rightarrow> Job__wait j tmo f1 f2 (put_job j (J\<lparr>explicit_wait := True\<rparr>) w))"

section \<open>JobRunner: bulk operations\<close>

text \<open>
  \<open>asyncio.wait\<close> runs one coroutine per job of the list built from the set and returns
  when all have settled; what a single coroutine raises stays in its future. The
  coroutines touch disjoint jobs, so they are run here one after the other, each with
  the fates of its own job. The flag says whether every coroutine settled.
\<close>

fun wait_each :: "pyval \<Rightarrow> (nat \<Rightarrow> fate \<times> fate) \<Rightarrow> nat list \<Rightarrow> world \<Rightarrow> bool \<times> world" where
  "wait_each tmo fs [] w = (True, w)"
| "wait_each tmo fs (j # js) w =
     (case Job__wait j tmo (fst (fs j)) (snd (fs j)) w of (r, w1) \<Rightarrow>
        (case wait_each tmo fs js w1 of (ok, w2) \<Rightarrow> (r \<noteq> Suspended \<and> ok, w2)))"

fun close_each :: "(nat \<Rightarrow> fate) \<Rightarrow> nat list \<Rightarrow> world \<Rightarrow> bool \<times> world" where
  "close_each fs [] w = (True, w)"
| "close_each fs (j # js) w =
     (case Job_close j (fs j) w of (r, w1) \<Rightarrow>
        (case close_each fs js w1 of (ok, w2) \<Rightarrow> (r \<noteq> Suspended \<and> ok, w2)))"

definition JobRunner_wait ::
  "nat \<Rightarrow> pyval \<Rightarrow> (nat \<Rightarrow> fate \<times> fate) \<Rightarrow> world \<Rightarrow> pyval result \<times> world" where
  "JobRunner_wait m tmo fs w =
     (case runner_store w m of None \<Rightarrow> (Raises NoSuchObject, w)
      | Some R \<Rightarrow>
          if jobs R = {} then (Returns PyNone, w)
          else (case wait_each tmo fs (sorted_list_of_set (jobs R)) w of
                  (ok, w') \<Rightarrow> (if ok then Returns PyNone else Suspended, w')))"

definition JobRunner_close :: "nat \<Rightarrow> (nat \<Rightarrow> fate) \<Rightarrow> world \<Rightarrow> pyval result \<times> world" where
  "JobRunner_close m fs w =
     (case runner_store w m of None \<Rightarrow> (Raises NoSuchObject, w)
      | Some R \<Rightarrow>
          if jobs R = {} then (Returns PyNone, w)
          else (case close_each fs (sorted_list_of_set (jobs R)) w of
                  (ok, w') \<Rightarrow> (if ok then Returns PyNone else Suspended, w')))"

section \<open>Histories\<close>

text \<open>
  Everything a program and the scheduler can do to the store: the public calls of the
  module, the loop's debug switch, and a task reaching a terminal state on its own.
\<close>

datatype action =
    NewRunner pyval
  | Exec nat traceback
  | Finish nat outcome
  | JobWait nat pyval fate fate
  | JobClose nat fate
  | RunnerWait nat pyval "nat \<Rightarrow> fate \<times> fate"
  | RunnerClose nat "nat \<Rightarrow> fate"
  | SetTimeout nat pyval
  | SetHandler nat pyval
  | SetDebug bool

fun step :: "action \<Rightarrow> world \<Rightarrow> world" where
  "step (NewRunner tmo) w = snd (JobRunner_init tmo w)"
| "step (Exec m stack) w = snd (JobRunner_exec m stack w)"
| "step (Finish j out) w = Task_finish j out w"
| "step (JobWait j tmo f1 f2) w = snd (Job_wait j tmo f1 f2 w)"
| "step (JobClose j f) w = snd (Job_close j f w)"
| "step (RunnerWait m tmo fs) w = snd (JobRunner_wait m tmo fs w)"
| "step (RunnerClose m fs) w = snd (JobRunner_close m fs w)"
| "step (SetTimeout m d) w = snd (JobRunner_set_timeout m d w)"
| "step (SetHandler m h) w = snd (JobRunner_set_exception_handler m h w)"
| "step (SetDebug b) w = w\<lparr>loop_debug := b\<rparr>"

definition run :: "action list \<Rightarrow> world \<Rightarrow> world" where
  "run acts w = fold step acts w"

section \<open>The registry invariant\<close>

text \<open>
  The state of a job's task, read through the store, and the relation between the jobs
  and the runners' sets that every history keeps: a pending job is in the set of the
  runner it points to, a set holds only pending jobs that point to its runner, and
  addresses below the allocation counters are the only ones in use.
\<close>

definition job_task :: "world \<Rightarrow> nat \<Rightarrow> tstate option" where
  "job_task w j = map_option task (job_store w j)"

definition registry_inv :: "world \<Rightarrow> bool" where
  "registry_inv w \<longleftrightarrow>
     (\<forall>j J. job_store w j = Some J \<and> task J = Pending \<longrightarrow>
        (\<exists>m R. manager J = Some m \<and> runner_store w m = Some R \<and> j \<in> jobs R))
   \<and> (\<forall>m R j. runner_store w m = Some R \<and> j \<in> jobs R \<longrightarrow>
        (\<exists>J. job_store w j = Some J \<and> task J = Pending \<and> manager J = Some m))
   \<and> (\<forall>j J. job_store w j = Some J \<longrightarrow> j < next_job w)
   \<and> (\<forall>m R. runner_store w m = Some R \<longrightarrow> m < next_runner w)"



text \<open>
  Two small stores used as concrete inputs: a runner with the default timeout and one
  running job; and the same in debug mode with a handler installed, so that the job
  carries a traceback.
\<close>

definition one_job_world :: world where
  "one_job_world = run [NewRunner default_timeout, Exec 0 []] init_world"

definition traced_world :: world where
  "traced_world =
     run [SetDebug True, NewRunner default_timeout, SetHandler 0 (PyCallable 1), Exec 0 [''main'']]
       init_world"

section \<open>The registry invariant holds along every history\<close>

lemma inv_init: "registry_inv init_world"
  by (simp add: registry_inv_def init_world_def)

lemma inv_same_stores:
  "job_store w' = job_store w \<Longrightarrow> runner_store w' = runner_store w \<Longrightarrow>
   next_job w' = next_job w \<Longrightarrow> next_runner w' = next_runner w \<Longrightarrow>
   registry_inv w' = registry_inv w"
  by (simp add: registry_inv_def)

lemma inv_report: "registry_inv (JobRunner_call_exception_handler R c w) = registry_inv w"
  by (rule inv_same_stores) (simp_all add: JobRunner_call_exception_handler_def Let_def)

lemma inv_owned:
  "registry_inv w \<Longrightarrow> job_store w j = Some J \<Longrightarrow> task J = Pending \<Longrightarrow>
   \<exists>m R. manager J = Some m \<and> runner_store w m = Some R \<and> j \<in> jobs R"
  unfolding registry_inv_def by blast

lemma inv_member:
  "registry_inv w \<Longrightarrow> runner_store w m = Some R \<Longrightarrow> j \<in> jobs R \<Longrightarrow>
   \<exists>J. job_store w j = Some J \<and> task J = Pending \<and> manager J = Some m"
  unfolding registry_inv_def by blast


lemma inv_flags:
  assumes "registry_inv w" "job_store w j = Some J" "task J' = task J" "manager J' = manager J"
  shows "registry_inv (put_job j J' w)"
proof -
  have a: "\<exists>m R. manager K = Some m \<and> runner_store w m = Some R \<and> i \<in> jobs R"
    if "((job_store w)(j \<mapsto> J')) i = Some K" "task K = Pending" for i K
    using that assms inv_owned[of w i] inv_owned[of w j J] by (cases "i = j") auto
  have b: "\<exists>K. ((job_store w)(j \<mapsto> J')) i = Some K \<and> task K = Pending \<and> manager K = Some m"
    if "runner_store w m = Some R" "i \<in> jobs R" for m R i
    using that assms inv_member[of w m R i] by (cases "i = j") auto
  have c: "i < next_job w" if "((job_store w)(j \<mapsto> J')) i = Some K" for i K
    using that assms unfolding registry_inv_def by (cases "i = j") auto
  have d: "m < next_runner w" if "runner_store w m = Some R" for m R
    using that assms unfolding registry_inv_def by blast
  show ?thesis
    unfolding registry_inv_def put_job_def using a b c d by simp
qed

lemma inv_Task_cancel: "registry_inv w \<Longrightarrow> registry_inv (Task_cancel j w)"
  by (auto simp: Task_cancel_def inv_flags split: option.splits tstate.splits)

lemma inv_removed:
  assumes "registry_inv w" "job_store w j = Some J" "manager J = Some m"
    "runner_store w m = Some R" "task J' \<noteq> Pending"
    "job_store w' = (job_store w)(j \<mapsto> J')"
    "runner_store w' = (runner_store w)(m \<mapsto> R\<lparr>jobs := jobs R - {j}\<rparr>)"
    "next_job w' = next_job w" "next_runner w' = next_runner w"
  shows "registry_inv w'"
proof -
  have a: "\<exists>n S. manager K = Some n \<and> runner_store w' n = Some S \<and> i \<in> jobs S"
    if "job_store w' i = Some K" "task K = Pending" for i K
  proof -
    from that assms have ij: "i \<noteq> j" and K: "job_store w i = Some K" by (auto split: if_splits)
    from inv_owned[OF assms(1) K that(2)] obtain n S where
      n: "manager K = Some n" "runner_store w n = Some S" "i \<in> jobs S" by blast
    show ?thesis using n ij assms(4,7) by (cases "n = m") auto
  qed
  have b: "\<exists>K. job_store w' i = Some K \<and> task K = Pending \<and> manager K = Some n"
    if "runner_store w' n = Some S" "i \<in> jobs S" for n S i
  proof -
    from that assms(4,7) obtain S0 where S0: "runner_store w n = Some S0" "i \<in> jobs S0" "i \<noteq> j \<or> n \<noteq> m"
      by (cases "n = m") (auto split: if_splits)
    from inv_member[OF assms(1) S0(1,2)] obtain K where
      K: "job_store w i = Some K" "task K = Pending" "manager K = Some n" by blast
    have "i \<noteq> j"
    proof
      assume "i = j"
      with K assms(2,3) have "n = m" by simp
      with that assms(7) \<open>i = j\<close> show False by auto
    qed
    then show ?thesis using K assms(6) by simp
  qed
  have c: "i < next_job w'" if "job_store w' i = Some K" for i K
    using that assms unfolding registry_inv_def by (cases "i = j") auto
  have d: "n < next_runner w'" if "runner_store w' n = Some S" for n S
    using that assms unfolding registry_inv_def by (cases "n = m") auto
  show ?thesis
    unfolding registry_inv_def using a b c d by blast
qed

lemma Task_finish_stores:
  assumes "registry_inv w" "job_store w j = Some J" "task J = Pending"
  shows "\<exists>m R. manager J = Some m \<and> runner_store w m = Some R \<and> j \<in> jobs R \<and>
     job_store (Task_finish j out w) =
       (job_store w)(j \<mapsto> (if settled out = WasCancelled then J\<lparr>task := Done (settled out)\<rparr>
          else J\<lparr>task := Done (settled out), manager := None\<rparr>)) \<and>
     runner_store (Task_finish j out w) = (runner_store w)(m \<mapsto> R\<lparr>jobs := jobs R - {j}\<rparr>) \<and>
     next_job (Task_finish j out w) = next_job w \<and>
     next_runner (Task_finish j out w) = next_runner w"
proof -
  from inv_owned[OF assms] obtain m R where
    m: "manager J = Some m" "runner_store w m = Some R" "j \<in> jobs R" by blast
  show ?thesis
    apply (rule exI[of _ m], rule exI[of _ R])
    using m assms(2,3)
    apply (cases "settled out")
    apply (simp_all add: Task_finish_def Job_done_callback_def put_job_def put_runner_def
        JobRunner_call_exception_handler_def Let_def fun_upd_twist)
    done
qed

lemma inv_Task_finish: "registry_inv w \<Longrightarrow> registry_inv (Task_finish j out w)"
proof (cases "job_store w j")
  case None
  assume "registry_inv w"
  with None show ?thesis by (simp add: Task_finish_def)
next
  case (Some J)
  assume inv: "registry_inv w"
  show ?thesis
  proof (cases "task J")
    case Pending
    from Task_finish_stores[OF inv Some Pending, of out] obtain m R where
      *: "manager J = Some m" "runner_store w m = Some R"
      "job_store (Task_finish j out w) =
       (job_store w)(j \<mapsto> (if settled out = WasCancelled then J\<lparr>task := Done (settled out)\<rparr>
          else J\<lparr>task := Done (settled out), manager := None\<rparr>))"
      "runner_store (Task_finish j out w) = (runner_store w)(m \<mapsto> R\<lparr>jobs := jobs R - {j}\<rparr>)"
      "next_job (Task_finish j out w) = next_job w"
      "next_runner (Task_finish j out w) = next_runner w" by blast
    show ?thesis
      by (rule inv_removed[OF inv Some *(1,2) _ *(3,4,5,6)]) simp
  next
    case (Done x)
    with Some inv show ?thesis by (simp add: Task_finish_def)
  qed
qed

lemma inv_await_task: "registry_inv w \<Longrightarrow> registry_inv (snd (await_task j tmo f w))"
  by (simp add: await_task_def inv_Task_finish split: option.splits tstate.splits fate.splits)

lemma inv_Job_close_handlers:
  "registry_inv (snd rw) \<Longrightarrow> registry_inv (snd (Job_close_handlers j rw))"
  by (cases rw) (simp add: Job_close_handlers_def inv_report split: result.splits option.splits)

lemma inv_Job_close: "registry_inv w \<Longrightarrow> registry_inv (snd (Job_close j f w))"
  by (simp add: Job_close_def Let_def inv_Task_cancel inv_await_task inv_Job_close_handlers
      split: option.splits)

lemma inv_Job__wait: "registry_inv w \<Longrightarrow> registry_inv (snd (Job__wait j tmo f1 f2 w))"
proof -
  assume inv: "registry_inv w"
  obtain r w1 where a: "await_task j tmo f1 w = (r, w1)" by (cases "await_task j tmo f1 w")
  with inv_await_task[OF inv, of j tmo f1] have w1: "registry_inv w1" by simp
  obtain rc w2 where c: "Job_close j f2 w1 = (rc, w2)" by (cases "Job_close j f2 w1")
  with inv_Job_close[OF w1, of j f2] have w2: "registry_inv w2" by simp
  show ?thesis using a c w1 w2 by (simp add: Job__wait_def split: result.splits)
qed

lemma inv_Job_wait: "registry_inv w \<Longrightarrow> registry_inv (snd (Job_wait j tmo f1 f2 w))"
  by (simp add: Job_wait_def inv_Job__wait inv_flags split: option.splits)

lemma inv_wait_each: "registry_inv w \<Longrightarrow> registry_inv (snd (wait_each tmo fs js w))"
proof (induction js arbitrary: w)
  case Nil
  then show ?case by simp
next
  case (Cons j js)
  obtain r w1 where a: "Job__wait j tmo (fst (fs j)) (snd (fs j)) w = (r, w1)"
    by (cases "Job__wait j tmo (fst (fs j)) (snd (fs j)) w")
  with inv_Job__wait[OF Cons.prems, of j tmo "fst (fs j)" "snd (fs j)"] have "registry_inv w1" by simp
  from Cons.IH[OF this] show ?case using a by (auto split: prod.splits)
qed

lemma inv_close_each: "registry_inv w \<Longrightarrow> registry_inv (snd (close_each fs js w))"
proof (induction js arbitrary: w)
  case Nil
  then show ?case by simp
next
  case (Cons j js)
  obtain r w1 where a: "Job_close j (fs j) w = (r, w1)" by (cases "Job_close j (fs j) w")
  with inv_Job_close[OF Cons.prems, of j "fs j"] have "registry_inv w1" by simp
  from Cons.IH[OF this] show ?case using a by (auto split: prod.splits)
qed

lemma inv_JobRunner_wait: "registry_inv w \<Longrightarrow> registry_inv (snd (JobRunner_wait m tmo fs w))"
  using inv_wait_each[of w tmo fs]
  by (simp add: JobRunner_wait_def split: option.splits prod.splits) (metis snd_conv)

lemma inv_JobRunner_close: "registry_inv w \<Longrightarrow> registry_inv (snd (JobRunner_close m fs w))"
  using inv_close_each[of w fs]
  by (simp add: JobRunner_close_def split: option.splits prod.splits) (metis snd_conv)

lemma inv_runner_fields:
  assumes "registry_inv w" "runner_store w m = Some R" "jobs R' = jobs R"
  shows "registry_inv (put_runner m R' w)"
proof -
  have a: "\<exists>n S. manager K = Some n \<and> ((runner_store w)(m \<mapsto> R')) n = Some S \<and> i \<in> jobs S"
    if "job_store w i = Some K" "task K = Pending" for i K
  proof -
    from inv_owned[OF assms(1) that] obtain n S where
      "manager K = Some n" "runner_store w n = Some S" "i \<in> jobs S" by blast
    then show ?thesis using assms(2,3) by (cases "n = m") auto
  qed
  have b: "\<exists>K. job_store w i = Some K \<and> task K = Pending \<and> manager K = Some n"
    if "((runner_store w)(m \<mapsto> R')) n = Some S" "i \<in> jobs S" for n S i
    using that assms inv_member[of w n _ i] by (cases "n = m") auto
  have c: "i < next_job w" if "job_store w i = Some K" for i K
    using that assms unfolding registry_inv_def by blast
  have d: "n < next_runner w" if "((runner_store w)(m \<mapsto> R')) n = Some S" for n S
    using that assms unfolding registry_inv_def by (cases "n = m") auto
  show ?thesis
    unfolding registry_inv_def put_runner_def using a b c d by simp
qed

lemma inv_set_timeout: "registry_inv w \<Longrightarrow> registry_inv (snd (JobRunner_set_timeout m d w))"
  by (simp add: JobRunner_set_timeout_def inv_runner_fields split: option.splits)

lemma inv_set_exception_handler:
  "registry_inv w \<Longrightarrow> registry_inv (snd (JobRunner_set_exception_handler m h w))"
  by (simp add: JobRunner_set_exception_handler_def inv_runner_fields split: option.splits)

lemma inv_JobRunner_init: "registry_inv w \<Longrightarrow> registry_inv (snd (JobRunner_init tmo w))"
proof -
  assume inv: "registry_inv w"
  define m where "m = next_runner w"
  define R' where "R' = \<lparr>jobs = {}, timeout = tmo, exception_handler = PyNone\<rparr>"
  have fresh: "runner_store w m = None"
    using inv unfolding registry_inv_def m_def by (cases "runner_store w (next_runner w)") auto
  have w': "snd (JobRunner_init tmo w) =
      (w\<lparr>runner_store := (runner_store w)(m \<mapsto> R'), next_runner := Suc m\<rparr>)"
    by (simp add: JobRunner_init_def Let_def put_runner_def m_def R'_def)
  have a: "\<exists>n S. manager K = Some n \<and> ((runner_store w)(m \<mapsto> R')) n = Some S \<and> i \<in> jobs S"
    if "job_store w i = Some K" "task K = Pending" for i K
  proof -
    from inv_owned[OF inv that] obtain n S where
      "manager K = Some n" "runner_store w n = Some S" "i \<in> jobs S" by blast
    then show ?thesis using fresh by (cases "n = m") auto
  qed
  have b: "\<exists>K. job_store w i = Some K \<and> task K = Pending \<and> manager K = Some n"
    if "((runner_store w)(m \<mapsto> R')) n = Some S" "i \<in> jobs S" for n S i
    using that inv_member[OF inv, of n S i] by (cases "n = m") (auto simp: R'_def)
  have c: "i < next_job w" if "job_store w i = Some K" for i K
    using that inv unfolding registry_inv_def by blast
  have d: "n < Suc m" if "((runner_store w)(m \<mapsto> R')) n = Some S" for n S
    using that inv unfolding registry_inv_def m_def
    by (cases "n = next_runner w") (auto simp: less_Suc_eq)
  show ?thesis
    unfolding w' registry_inv_def using a b c d by simp
qed

lemma inv_Job_init: "registry_inv w \<Longrightarrow> registry_inv (snd (Job_init stack m w))"
proof (cases "runner_store w m")
  case None
  assume "registry_inv w"
  with None show ?thesis by (simp add: Job_init_def)
next
  case (Some R)
  assume inv: "registry_inv w"
  define j where "j = next_job w"
  define J where "J = \<lparr>task = Pending, cancel_requested = False, manager = Some m,
     explicit_wait = False, source_traceback = (if loop_debug w then Some stack else None)\<rparr>"
  define R' where "R' = R\<lparr>jobs := insert j (jobs R)\<rparr>"
  have fresh: "job_store w j = None"
    using inv unfolding registry_inv_def j_def by (cases "job_store w (next_job w)") auto
  have w': "snd (Job_init stack m w) =
      (w\<lparr>job_store := (job_store w)(j \<mapsto> J), runner_store := (runner_store w)(m \<mapsto> R'),
         next_job := Suc j\<rparr>)"
    using Some by (simp add: Job_init_def Let_def put_job_def put_runner_def j_def J_def R'_def)
  have a: "\<exists>n S. manager K = Some n \<and> ((runner_store w)(m \<mapsto> R')) n = Some S \<and> i \<in> jobs S"
    if "((job_store w)(j \<mapsto> J)) i = Some K" "task K = Pending" for i K
  proof (cases "i = j")
    case True
    with that show ?thesis by (auto simp: J_def R'_def)
  next
    case False
    with that have "job_store w i = Some K" by simp
    from inv_owned[OF inv this that(2)] obtain n S where
      "manager K = Some n" "runner_store w n = Some S" "i \<in> jobs S" by blast
    then show ?thesis using Some by (cases "n = m") (auto simp: R'_def)
  qed
  have b: "\<exists>K. ((job_store w)(j \<mapsto> J)) i = Some K \<and> task K = Pending \<and> manager K = Some n"
    if "((runner_store w)(m \<mapsto> R')) n = Some S" "i \<in> jobs S" for n S i
  proof (cases "i = j")
    case True
    have "n = m"
    proof (rule ccontr)
      assume "n \<noteq> m"
      with that have "runner_store w n = Some S" by simp
      from inv_member[OF inv this that(2)] True fresh show False by simp
    qed
    with True show ?thesis by (simp add: J_def)
  next
    case False
    with that Some have "\<exists>S0. runner_store w n = Some S0 \<and> i \<in> jobs S0"
      by (cases "n = m") (auto simp: R'_def)
    then obtain S0 where "runner_store w n = Some S0" "i \<in> jobs S0" by blast
    from inv_member[OF inv this] False show ?thesis by simp
  qed
  have c: "i < Suc j" if "((job_store w)(j \<mapsto> J)) i = Some K" for i K
    using that inv unfolding registry_inv_def j_def by (cases "i = next_job w") (auto simp: less_Suc_eq)
  have d: "n < next_runner w" if "((runner_store w)(m \<mapsto> R')) n = Some S" for n S
    using that inv Some unfolding registry_inv_def by (cases "n = m") auto
  show ?thesis
    unfolding w' registry_inv_def using a b c d by simp
qed

lemma inv_step: "registry_inv w \<Longrightarrow> registry_inv (step a w)"
proof (cases a)
  case (SetDebug b)
  assume "registry_inv w"
  then show ?thesis using SetDebug by (simp add: inv_same_stores[of "w\<lparr>loop_debug := b\<rparr>" w])
qed (simp_all add: inv_JobRunner_init JobRunner_exec_def inv_Job_init inv_Task_finish inv_Job_wait
      inv_Job_close inv_JobRunner_wait inv_JobRunner_close inv_set_timeout
      inv_set_exception_handler)

lemma inv_run: "registry_inv w \<Longrightarrow> registry_inv (run acts w)"
  unfolding run_def by (induction acts arbitrary: w) (simp_all add: inv_step)

text \<open>A terminal task stays terminal, whatever happens next.\<close>

lemma done_report:
  "job_task (JobRunner_call_exception_handler R c w) j = job_task w j"
  by (simp add: job_task_def JobRunner_call_exception_handler_def Let_def)

lemma done_Task_finish:
  "job_task w j = Some (Done x) \<Longrightarrow> job_task (Task_finish i out w) j = Some (Done x)"
  by (cases "i = j")
    (auto simp: job_task_def Task_finish_def Job_done_callback_def put_job_def put_runner_def
      JobRunner_call_exception_handler_def Let_def
      split: option.splits tstate.splits result.splits)

lemma done_Task_cancel:
  "job_task w j = Some (Done x) \<Longrightarrow> job_task (Task_cancel i w) j = Some (Done x)"
  by (cases "i = j")
    (auto simp: job_task_def Task_cancel_def put_job_def split: option.splits tstate.splits)

lemma done_await_task:
  "job_task w j = Some (Done x) \<Longrightarrow> job_task (snd (await_task i tmo f w)) j = Some (Done x)"
  by (simp add: await_task_def done_Task_finish split: option.splits tstate.splits fate.splits)

lemma done_Job_close_handlers:
  "job_task (snd rw) j = Some (Done x) \<Longrightarrow>
   job_task (snd (Job_close_handlers i rw)) j = Some (Done x)"
  by (cases rw) (simp add: Job_close_handlers_def done_report split: result.splits option.splits)

lemma done_Job_close:
  "job_task w j = Some (Done x) \<Longrightarrow> job_task (snd (Job_close i f w)) j = Some (Done x)"
  by (simp add: Job_close_def Let_def done_Task_cancel done_await_task done_Job_close_handlers
      split: option.splits)

lemma done_Job__wait:
  assumes "job_task w j = Some (Done x)"
  shows "job_task (snd (Job__wait i tmo f1 f2 w)) j = Some (Done x)"
proof -
  obtain r w1 where a: "await_task i tmo f1 w = (r, w1)" by (cases "await_task i tmo f1 w")
  with done_await_task[OF assms, of i tmo f1] have w1: "job_task w1 j = Some (Done x)" by simp
  obtain rc w2 where c: "Job_close i f2 w1 = (rc, w2)" by (cases "Job_close i f2 w1")
  with done_Job_close[OF w1, of i f2] have w2: "job_task w2 j = Some (Done x)" by simp
  show ?thesis using a c w1 w2 by (simp add: Job__wait_def split: result.splits)
qed

lemma done_Job_wait:
  assumes "job_task w j = Some (Done x)"
  shows "job_task (snd (Job_wait i tmo f1 f2 w)) j = Some (Done x)"
proof (cases "job_store w i")
  case None
  with assms show ?thesis by (simp add: Job_wait_def)
next
  case (Some I)
  have "job_task (put_job i (I\<lparr>explicit_wait := True\<rparr>) w) j = Some (Done x)"
    using assms Some by (cases "i = j") (auto simp: job_task_def put_job_def)
  from done_Job__wait[OF this] Some show ?thesis by (simp add: Job_wait_def)
qed

lemma done_wait_each:
  "job_task w j = Some (Done x) \<Longrightarrow> job_task (snd (wait_each tmo fs js w)) j = Some (Done x)"
proof (induction js arbitrary: w)
  case Nil
  then show ?case by simp
next
  case (Cons i js)
  obtain r w1 where a: "Job__wait i tmo (fst (fs i)) (snd (fs i)) w = (r, w1)"
    by (cases "Job__wait i tmo (fst (fs i)) (snd (fs i)) w")
  with done_Job__wait[OF Cons.prems, of i tmo "fst (fs i)" "snd (fs i)"]
  have "job_task w1 j = Some (Done x)" by simp
  from Cons.IH[OF this] show ?case using a by (auto split: prod.splits)
qed

lemma done_close_each:
  "job_task w j = Some (Done x) \<Longrightarrow> job_task (snd (close_each fs js w)) j = Some (Done x)"
proof (induction js arbitrary: w)
  case Nil
  then show ?case by simp
next
  case (Cons i js)
  obtain r w1 where a: "Job_close i (fs i) w = (r, w1)" by (cases "Job_close i (fs i) w")
  with done_Job_close[OF Cons.prems, of i "fs i"] have "job_task w1 j = Some (Done x)" by simp
  from Cons.IH[OF this] show ?case using a by (auto split: prod.splits)
qed

lemma done_JobRunner_wait:
  "job_task w j = Some (Done x) \<Longrightarrow> job_task (snd (JobRunner_wait m tmo fs w)) j = Some (Done x)"
  using done_wait_each[of w j x tmo fs]
  by (simp add: JobRunner_wait_def split: option.splits prod.splits) (metis snd_conv)

lemma done_JobRunner_close:
  "job_task w j = Some (Done x) \<Longrightarrow> job_task (snd (JobRunner_close m fs w)) j = Some (Done x)"
  using done_close_each[of w j x fs]
  by (simp add: JobRunner_close_def split: option.splits prod.splits) (metis snd_conv)

lemma done_Job_init:
  assumes "registry_inv w" "job_task w j = Some (Done x)"
  shows "job_task (snd (Job_init stack m w)) j = Some (Done x)"
proof -
  from assms have "j < next_job w" unfolding registry_inv_def job_task_def by auto
  then show ?thesis using assms(2)
    by (auto simp: Job_init_def job_task_def put_job_def put_runner_def Let_def split: option.splits)
qed

lemma done_step:
  assumes "registry_inv w" "job_task w j = Some (Done x)"
  shows "job_task (step a w) j = Some (Done x)"
proof (cases a)
  case (NewRunner tmo)
  with assms(2) show ?thesis by (simp add: JobRunner_init_def job_task_def put_runner_def Let_def)
next
  case (Exec m stack)
  with done_Job_init[OF assms] show ?thesis by (simp add: JobRunner_exec_def)
next
  case (SetTimeout m d)
  with assms(2) show ?thesis
    by (simp add: JobRunner_set_timeout_def job_task_def put_runner_def split: option.splits)
next
  case (SetHandler m h)
  with assms(2) show ?thesis
    by (simp add: JobRunner_set_exception_handler_def job_task_def put_runner_def
        split: option.splits)
next
  case (SetDebug b)
  with assms(2) show ?thesis by (simp add: job_task_def)
qed (simp_all add: assms(2) done_Task_finish done_Job_wait done_Job_close done_JobRunner_wait
      done_JobRunner_close)

lemma done_run:
  "registry_inv w \<Longrightarrow> job_task w j = Some (Done x) \<Longrightarrow>
   job_task (run acts w) j = Some (Done x) \<and> registry_inv (run acts w)"
  unfolding run_def
  by (induction acts arbitrary: w) (simp_all add: inv_step done_step)

lemma callback_of_owned:
  assumes "job_store w j = Some J" "task J = Pending" "manager J = Some m"
    "runner_store w m = Some R" "j \<in> jobs R"
  shows "fst (Job_done_callback j (put_job j (J\<lparr>task := Done (settled out)\<rparr>) w))
           = (if settled out = WasCancelled then Raises CancelledError else Returns PyNone)"
    and "runner_store (Task_finish j out w) m = Some (R\<lparr>jobs := jobs R - {j}\<rparr>)"
  using assms
  by (cases "settled out";
      simp add: Task_finish_def Job_done_callback_def put_job_def put_runner_def
        JobRunner_call_exception_handler_def Let_def)+

lemma exec_registers:
  assumes "runner_store w m = Some R"
  shows "fst (JobRunner_exec m stack w) = Returns (next_job w)"
    and "JobRunner_contains m (next_job w) (snd (JobRunner_exec m stack w)) = Returns True"
    and "Job_done (next_job w) (snd (JobRunner_exec m stack w)) = Returns False"
  using assms
  by (simp_all add: JobRunner_exec_def Job_init_def JobRunner_contains_def Job_done_def
      put_job_def put_runner_def Let_def)

section \<open>Claim C1: a job is registered exactly while it runs\<close>

text \<open>
  Claim C1. In every store reached from the empty one by any history of calls and
  scheduler steps: a job whose task is pending is a member of the set of the runner its
  back reference names, and its completion callback, run for any terminal state, finds
  it there (no \<open>KeyError\<close>) and leaves the set without it; a job whose task is
  terminal is in no runner's set, now and after any further history; and
  \<open>JobRunner.exec\<close> on a runner returns a pending job that the runner contains.
\<close>

theorem job_registered_until_terminal:
  assumes "w = run acts init_world" and "job_store w j = Some J"
  shows "(task J = Pending \<longrightarrow>
            (\<exists>m R. manager J = Some m \<and> runner_store w m = Some R \<and> j \<in> jobs R \<and>
               (\<forall>out. fst (Job_done_callback j (put_job j (J\<lparr>task := Done (settled out)\<rparr>) w))
                        \<noteq> Raises KeyError \<and>
                      runner_store (Task_finish j out w) m = Some (R\<lparr>jobs := jobs R - {j}\<rparr>))))
       \<and> (task J \<noteq> Pending \<longrightarrow>
            (\<forall>acts' m R. runner_store (run acts' w) m = Some R \<longrightarrow> j \<notin> jobs R))
       \<and> (\<forall>m R stack. runner_store w m = Some R \<longrightarrow>
            (\<exists>i. fst (JobRunner_exec m stack w) = Returns i \<and>
                 JobRunner_contains m i (snd (JobRunner_exec m stack w)) = Returns True \<and>
                 Job_done i (snd (JobRunner_exec m stack w)) = Returns False))"
proof (intro conjI impI allI)
  have inv: "registry_inv w"
    unfolding assms(1) by (rule inv_run[OF inv_init])
  {
    assume p: "task J = Pending"
    from inv_owned[OF inv assms(2) p] obtain m R where
      m: "manager J = Some m" "runner_store w m = Some R" "j \<in> jobs R" by blast
    have "fst (Job_done_callback j (put_job j (J\<lparr>task := Done (settled out)\<rparr>) w))
            \<noteq> Raises KeyError \<and>
          runner_store (Task_finish j out w) m = Some (R\<lparr>jobs := jobs R - {j}\<rparr>)" for out
      using callback_of_owned[OF assms(2) p m, of out] by simp
    with m show "\<exists>m R. manager J = Some m \<and> runner_store w m = Some R \<and> j \<in> jobs R \<and>
               (\<forall>out. fst (Job_done_callback j (put_job j (J\<lparr>task := Done (settled out)\<rparr>) w))
                        \<noteq> Raises KeyError \<and>
                      runner_store (Task_finish j out w) m = Some (R\<lparr>jobs := jobs R - {j}\<rparr>))"
      by blast
  }
  {
    fix acts' m R
    assume d: "task J \<noteq> Pending" and r: "runner_store (run acts' w) m = Some R"
    from d obtain x where "task J = Done x" by (cases "task J") auto
    with assms(2) have "job_task w j = Some (Done x)" by (simp add: job_task_def)
    from done_run[OF inv this, of acts'] have
      t: "job_task (run acts' w) j = Some (Done x)" and i: "registry_inv (run acts' w)" by simp_all
    show "j \<notin> jobs R"
    proof
      assume "j \<in> jobs R"
      from inv_member[OF i r this] t show False by (auto simp: job_task_def)
    qed
  }
  {
    fix m R stack
    assume "runner_store w m = Some R"
    from exec_registers[OF this, of stack]
    show "\<exists>i. fst (JobRunner_exec m stack w) = Returns i \<and>
                 JobRunner_contains m i (snd (JobRunner_exec m stack w)) = Returns True \<and>
                 Job_done i (snd (JobRunner_exec m stack w)) = Returns False"
      by blast
  }
qed

text \<open>Witness for C1: a running job is contained, a finished one is not, also after a later \<open>close()\<close>.\<close>

theorem job_registered_until_terminal_witness:
  "(\<exists>J. job_store (run [NewRunner default_timeout, Exec 0 []] init_world) 0 = Some J \<and>
        task J = Pending \<and>
        JobRunner_contains 0 0 (run [NewRunner default_timeout, Exec 0 []] init_world) = Returns True)
   \<and> (\<exists>J. job_store (run [NewRunner default_timeout, Exec 0 [], Finish 0 (Returned PyNone)]
              init_world) 0 = Some J \<and>
        task J = Done (Returned PyNone) \<and>
        JobRunner_contains 0 0
          (run [JobClose 0 Outlives]
             (run [NewRunner default_timeout, Exec 0 [], Finish 0 (Returned PyNone)] init_world))
          = Returns False)"
proof -
  define J1 where "J1 = \<lparr>task = Pending, cancel_requested = False, manager = Some (0::nat),
     explicit_wait = False, source_traceback = None\<rparr>"
  define J2 where "J2 = \<lparr>task = Done (Returned PyNone), cancel_requested = False,
     manager = None, explicit_wait = False, source_traceback = None\<rparr>"
  let ?w1 = "run [NewRunner default_timeout, Exec 0 []] init_world"
  let ?w2 = "run [NewRunner default_timeout, Exec 0 [], Finish 0 (Returned PyNone)] init_world"
  have s1: "job_store ?w1 0 = Some J1"
    by (simp add: J1_def run_def init_world_def JobRunner_init_def JobRunner_exec_def Job_init_def
        put_job_def put_runner_def)
  have s2: "job_store ?w2 0 = Some J2"
    by (simp add: J2_def run_def init_world_def JobRunner_init_def JobRunner_exec_def Job_init_def
        put_job_def put_runner_def Task_finish_def Job_done_callback_def)
  have r2: "\<exists>R. runner_store (run [JobClose 0 Outlives] ?w2) 0 = Some R"
    by (simp add: run_def init_world_def JobRunner_init_def JobRunner_exec_def Job_init_def
        put_job_def put_runner_def Task_finish_def Job_done_callback_def Job_close_def
        Task_cancel_def)
  have a: "JobRunner_contains 0 0 ?w1 = Returns True"
    using job_registered_until_terminal[OF refl s1]
    by (auto simp: J1_def JobRunner_contains_def)
  have b: "JobRunner_contains 0 0 (run [JobClose 0 Outlives] ?w2) = Returns False"
    using job_registered_until_terminal[OF refl s2] r2
    by (auto simp: J2_def JobRunner_contains_def)
  show ?thesis using s1 s2 a b by (simp add: J1_def J2_def)
qed

section \<open>The sample stores\<close>

lemma one_job_world_job:
  "job_store one_job_world 0 = Some \<lparr>task = Pending, cancel_requested = False,
     manager = Some 0, explicit_wait = False, source_traceback = None\<rparr>"
  by (simp add: one_job_world_def run_def init_world_def JobRunner_init_def JobRunner_exec_def
      Job_init_def put_job_def put_runner_def)

lemma one_job_world_runner:
  "runner_store one_job_world 0 =
     Some \<lparr>jobs = {0}, timeout = PyNum (1 / 10), exception_handler = PyNone\<rparr>"
  by (simp add: default_timeout_def one_job_world_def run_def init_world_def JobRunner_init_def JobRunner_exec_def
      Job_init_def put_job_def put_runner_def)

lemma one_job_world_reported: "reported one_job_world = []"
  by (simp add: one_job_world_def run_def init_world_def JobRunner_init_def JobRunner_exec_def
      Job_init_def put_job_def put_runner_def)


lemma traced_world_runner:
  "runner_store traced_world 0 =
     Some \<lparr>jobs = {0}, timeout = PyNum (1 / 10), exception_handler = PyCallable 1\<rparr>"
  by (simp add: default_timeout_def traced_world_def run_def init_world_def JobRunner_init_def JobRunner_exec_def
      JobRunner_set_exception_handler_def Job_init_def put_job_def put_runner_def)


section \<open>Reports, the scheduler's step and the bounded wait\<close>




section \<open>Job.close and Job.wait on a running job\<close>

lemma Job_close_running:
  assumes "job_store w j = Some J" "task J = Pending" "manager J = Some m"
    "runner_store w m = Some R"
  shows "Job_close j f w =
     Job_close_handlers j (await_task j (timeout R) f (put_job j (J\<lparr>cancel_requested := True\<rparr>) w))"
  using assms by (simp add: Job_close_def Task_cancel_def put_job_def Let_def)





section \<open>Claim C4: what Job.close does\<close>




section \<open>Claim C3: Job.wait past its deadline\<close>




section \<open>Claim C6: JobRunner.wait and the explicit-wait flag\<close>











section \<open>Claim C9: the exception handler\<close>

text \<open>
  Claim C9. \<open>set_exception_handler(h)\<close> with \<open>h\<close> neither \<open>None\<close> nor callable raises
  \<open>TypeError\<close> and leaves the store, and so the handler, as it was; with \<open>None\<close> or a
  callable it returns and \<open>get_exception_handler\<close> gives \<open>h\<close>. A context reported
  through a runner without a handler goes to the loop's own handler, otherwise to the
  runner's.
\<close>

theorem set_exception_handler_validates:
  assumes "runner_store w m = Some R"
  shows "(h \<noteq> PyNone \<and> \<not> callable h \<longrightarrow>
            JobRunner_set_exception_handler m h w = (Raises (TypeError h), w) \<and>
            JobRunner_get_exception_handler m (snd (JobRunner_set_exception_handler m h w))
              = Returns (exception_handler R))
     \<and> (h = PyNone \<or> callable h \<longrightarrow>
            fst (JobRunner_set_exception_handler m h w) = Returns PyNone \<and>
            JobRunner_get_exception_handler m (snd (JobRunner_set_exception_handler m h w))
              = Returns h)
     \<and> (exception_handler R = PyNone \<longrightarrow>
            reported (JobRunner_call_exception_handler R c w) = reported w @ [(LoopDefault, c)])
     \<and> (exception_handler R \<noteq> PyNone \<longrightarrow>
            reported (JobRunner_call_exception_handler R c w)
              = reported w @ [(Handler (exception_handler R), c)])"
  using assms
  by (auto simp: JobRunner_set_exception_handler_def JobRunner_get_exception_handler_def
      JobRunner_call_exception_handler_def put_runner_def Let_def)

text \<open>Witness for C9.\<close>

theorem set_exception_handler_validates_witness:
  "fst (JobRunner_set_exception_handler 0 (PyStr ''handler'') traced_world)
     = Raises (TypeError (PyStr ''handler''))
   \<and> JobRunner_get_exception_handler 0
        (snd (JobRunner_set_exception_handler 0 (PyStr ''handler'') traced_world))
     = Returns (PyCallable 1)
   \<and> JobRunner_get_exception_handler 0
        (snd (JobRunner_set_exception_handler 0 (PyCallable 2) traced_world))
     = Returns (PyCallable 2)
   \<and> JobRunner_get_exception_handler 0
        (snd (JobRunner_set_exception_handler 0 PyNone traced_world))
     = Returns PyNone
   \<and> reported (JobRunner_call_exception_handler
        \<lparr>jobs = {0}, timeout = PyNum (1 / 10), exception_handler = PyNone\<rparr>
        (failed_context 0 \<lparr>task = Pending, cancel_requested = False, manager = Some 0,
           explicit_wait = False, source_traceback = None\<rparr> (Failure 7)) one_job_world)
     = [(LoopDefault, \<lparr>message = ''Job processing failed'', ctx_job = 0,
           exception = Failure 7, ctx_source_traceback = None\<rparr>)]"
  using set_exception_handler_validates[OF traced_world_runner, of "PyStr ''handler''"]
    set_exception_handler_validates[OF traced_world_runner, of "PyCallable 2"]
    set_exception_handler_validates[OF traced_world_runner, of PyNone]
    set_exception_handler_validates[OF one_job_world_runner, of PyNone
      "failed_context 0 \<lparr>task = Pending, cancel_requested = False, manager = Some 0,
           explicit_wait = False, source_traceback = None\<rparr> (Failure 7)"]
  by (simp add: one_job_world_reported failed_context_def JobRunner_get_exception_handler_def
      traced_world_runner)

section \<open>Claim C10: the grace period\<close>



section \<open>Claim C2: the completion callback of a cancelled job\<close>

text \<open>
  Claim C2 at a failing input. For a job whose task ends cancelled, \<open>task.exception()\<close>
  raises \<open>CancelledError\<close> inside \<open>_done_callback\<close>: the job has left the runner's set,
  but the line that drops the back reference is not reached, and \<open>manager\<close> still names
  the runner. After a normal return the back reference is \<open>None\<close>. (For every terminal
  state, \<open>Task_finish_owned\<close> above gives the removal and the report.)
\<close>

theorem done_callback_cancelled_keeps_backref:
  "fst (Job_done_callback 0
          (put_job 0 \<lparr>task = Done WasCancelled, cancel_requested = True, manager = Some 0,
             explicit_wait = False, source_traceback = None\<rparr> one_job_world))
     = Raises CancelledError
   \<and> fst (Job_close 0 (Ends WasCancelled) one_job_world) = Returns PyNone
   \<and> Job_done 0 (snd (Job_close 0 (Ends WasCancelled) one_job_world)) = Returns True
   \<and> JobRunner_contains 0 0 (snd (Job_close 0 (Ends WasCancelled) one_job_world)) = Returns False
   \<and> map_option manager (job_store (snd (Job_close 0 (Ends WasCancelled) one_job_world)) 0)
       = Some (Some 0)
   \<and> map_option manager (job_store (snd (Job_close 0 (Ends (Returned PyNone)) one_job_world)) 0)
       = Some None"
  by (simp add: Job_close_running[OF one_job_world_job _ _ one_job_world_runner]
      await_task_def one_job_world_job one_job_world_runner put_job_def put_runner_def
      Job_close_handlers_def Task_finish_def Job_done_callback_def Job_done_def
      JobRunner_contains_def)

section \<open>Claim C5: closing twice\<close>

text \<open>
  Claim C5 at a failing input. The computation swallows the cancellation of the first
  \<open>close()\<close> and returns; the callback drops the back reference; the second \<open>close()\<close>
  reads \<open>self._manager._timeout\<close> and raises \<open>AttributeError\<close>. So does a first
  \<open>close()\<close> on a job that has already returned.
\<close>

theorem second_close_raises:
  "fst (Job_close 0 (Ends (Returned (PyNum 1))) one_job_world) = Returns PyNone
   \<and> fst (Job_close 0 f (snd (Job_close 0 (Ends (Returned (PyNum 1))) one_job_world)))
       = Raises AttributeError
   \<and> fst (Job_close 0 f (Task_finish 0 (Returned (PyNum 1)) one_job_world))
       = Raises AttributeError"
  by (simp add: Job_close_running[OF one_job_world_job _ _ one_job_world_runner]
      await_task_def one_job_world_job one_job_world_runner put_job_def put_runner_def
      Job_close_handlers_def Task_finish_def Job_done_callback_def Job_close_def
      Task_cancel_def)

section \<open>Claim C7: Job.wait without a deadline\<close>

text \<open>
  Claim C7 at a failing input. The computation fails with \<open>asyncio.TimeoutError\<close>;
  \<open>Job._wait\<close> takes it for an expired deadline and calls \<open>close()\<close>, which finds the
  back reference dropped: the caller of \<open>wait()\<close> gets \<open>AttributeError\<close>, not the
  computation's failure. Any other failure reaches the caller unchanged.
\<close>

theorem wait_on_timeout_failure:
  "fst (Job_wait 0 PyNone (Ends (Raised TimeoutError)) f2 one_job_world) = Raises AttributeError
   \<and> fst (Job_wait 0 PyNone (Ends (Raised (Failure 7))) f2 one_job_world) = Raises (Failure 7)"
  by (simp add: Job_wait_def Job__wait_def one_job_world_job one_job_world_runner await_task_def
      put_job_def put_runner_def Task_finish_def Job_done_callback_def Job_close_def
      Task_cancel_def)

text \<open>
  For every outcome other than a timeout failure, \<open>wait()\<close> without a deadline gives
  exactly the computation's outcome, and it stays suspended while the computation runs.
\<close>

lemma Job_wait_no_deadline:
  assumes "job_store w j = Some J" "task J = Pending"
  shows "settled out \<noteq> Raised TimeoutError \<Longrightarrow>
           fst (Job_wait j PyNone (Ends out) f2 w) = Task_result (settled out)"
    and "fst (Job_wait j PyNone Outlives f2 w) = Suspended"
  using assms
  by (cases "settled out";
      simp add: Job_wait_def Job__wait_def await_task_def put_job_def)+

end
